theory Spec2Isabelle
  imports
    Main
    "HOL-Library.Sublist"
    "HOL-Library.Char_ord"
    "HOL-Library.List_Lexorder"
    "HOL-Library.Product_Lexorder"
    "HOL-Library.Multiset"
begin

section \<open>Strings\<close>

text \<open>
  The script works on Python \<open>str\<close> values. They are modelled as \<open>string\<close>, one
  \<open>char\<close> per code point, for code points below 256. The four string operations
  the script uses are \<open>in\<close>, \<open>strip()\<close>, \<open>split()\<close> and \<open>lower()\<close>.
\<close>

text \<open>\<open>sub in s\<close>: \<open>sub\<close> occurs in \<open>s\<close> as a contiguous run.\<close>

definition str_in :: "string \<Rightarrow> string \<Rightarrow> bool" where
  "str_in sub s = sublist sub s"

text \<open>\<open>str.isspace\<close> on one character (the whitespace of \<open>strip\<close> and \<open>split\<close>).\<close>

definition isspace :: "char \<Rightarrow> bool" where
  "isspace c =
     (let n = (of_char c :: nat)
      in (9 \<le> n \<and> n \<le> 13) \<or> (28 \<le> n \<and> n \<le> 32) \<or> n = 133 \<or> n = 160)"

definition strip :: "string \<Rightarrow> string" where
  "strip s = rev (dropWhile isspace (rev (dropWhile isspace s)))"

text \<open>
  \<open>s.split()\<close>: the maximal runs of non-whitespace characters, in order. The second
  argument is the run read so far.
\<close>

fun split_from :: "string \<Rightarrow> string \<Rightarrow> string list" where
  "split_from [] cur = (if cur = [] then [] else [cur])"
| "split_from (c # cs) cur =
     (if isspace c then (if cur = [] then split_from cs [] else cur # split_from cs [])
      else split_from cs (cur @ [c]))"

definition split :: "string \<Rightarrow> string list" where
  "split s = split_from s []"

definition lower_char :: "char \<Rightarrow> char" where
  "lower_char c =
     (let n = (of_char c :: nat)
      in if (65 \<le> n \<and> n \<le> 90) \<or> (192 \<le> n \<and> n \<le> 222 \<and> n \<noteq> 215)
         then char_of (n + 32) else c)"

definition lower :: "string \<Rightarrow> string" where
  "lower s = map lower_char s"

section \<open>Errors, documents and records\<close>

text \<open>
  The exceptions that can be raised inside the script: the two failures of a page
  fetch (\<open>requests.get\<close> cannot complete; \<open>raise_for_status\<close> on an error status),
  an index out of range, a URL that \<open>urljoin\<close> rejects, a log message whose markup
  \<open>rich\<close> rejects, and a failed \<open>assert\<close>.
\<close>

datatype error =
    ConnectionError
  | HTTPError nat
  | IndexError
  | ValueError
  | MarkupError
  | AssertionError

text \<open>
  A table row as the extractor reads it: the text of its first
  \<open>span.param_caption\<close> (if there is one) and the texts of its \<open>td\<close> cells.
\<close>

record row =
  caption_span :: "string option"
  tds :: "string list"

text \<open>
  A parsed page (the \<open>soup\<close>), as the selectors of the script see it: the \<open>href\<close>s
  of the anchors inside \<open>div.subcategories_list_item_wrapper\<close>, those inside
  \<open>div.browse-page-block\<close>, the rows of each \<open>div.product-type\<close>, and the texts of
  the \<open>a.pathway\<close> elements.
\<close>

record document =
  main_categories :: "string list"
  browse_blocks :: "string list"
  product_divs :: "row list list"
  pathways :: "string list"

record catalog_record =
  cameraType :: string
  cameraFamily :: string
  mosaicWidth :: int
  mosaicHeight :: int

section \<open>Python dictionaries\<close>

text \<open>
  A \<open>dict\<close> keeps its keys in insertion order and holds each key once: an association
  list with distinct keys. \<open>d[k] = v\<close> replaces the value in place when \<open>k\<close> is
  present and appends the entry otherwise.
\<close>

type_synonym pdict = "(string \<times> catalog_record) list"

definition is_dict :: "pdict \<Rightarrow> bool" where
  "is_dict d = distinct (map fst d)"

fun dict_set :: "string \<Rightarrow> catalog_record \<Rightarrow> pdict \<Rightarrow> pdict" where
  "dict_set k v [] = [(k, v)]"
| "dict_set k v ((k', v') # d) =
     (if k' = k then (k', v) # d else (k', v') # dict_set k v d)"

text \<open>\<open>d.update(e)\<close>: every entry of \<open>e\<close>, in order, is stored into \<open>d\<close>.\<close>

definition dict_update :: "pdict \<Rightarrow> pdict \<Rightarrow> pdict" where
  "dict_update d e = fold (\<lambda>(k, v). dict_set k v) e d"

section \<open>The record extractor\<close>

text \<open>
  What the script writes to the console: the two \<open>progress.log\<close> lines of the
  extractor and the two \<open>print\<close> lines of the crawl.
\<close>

datatype event =
    SkipFamily "string option"
  | SkipChroma string string
  | ProductError error
  | SubcategoryError error

text \<open>
  The state the crawl mutates: the shared dictionary \<open>part_numbers_data\<close> and the
  console.
\<close>

record crawl_state =
  part_numbers_data :: pdict
  console :: "event list"

text \<open>\<open>xs[i]\<close> for a non-negative \<open>i\<close>.\<close>

definition item :: "'a list \<Rightarrow> nat \<Rightarrow> error + 'a" where
  "item xs i = (if i < length xs then Inr (xs ! i) else Inl IndexError)"

text \<open>\<open>xs[-1]\<close>.\<close>

definition last_item :: "'a list \<Rightarrow> error + 'a" where
  "last_item xs = (if xs = [] then Inl IndexError else Inr (last xs))"

definition known_families :: "string list" where
  "known_families = [''xiC'', ''xiQ'', ''xiSpec'', ''xiX'', ''xiB'', ''xiB-64'', ''xiRAY'']"

text \<open>
  The loop over the rows of one product div (lines 142 to 155). The guards
  \<open>if part_number_td:\<close> and \<open>if chroma_td:\<close> test a tag, which is always true, and the
  test \<open>caption_span and ...\<close> is the test that the span was found.
\<close>

fun scan_rows ::
  "row list \<Rightarrow> string option \<Rightarrow> string option \<Rightarrow> error + (string option \<times> string option)"
where
  "scan_rows [] part_number chroma = Inr (part_number, chroma)"
| "scan_rows (r # rows) part_number chroma =
     (case caption_span r of
        None \<Rightarrow> scan_rows rows part_number chroma
      | Some caption \<Rightarrow>
          if str_in ''Part Number'' caption then
            (case item (tds r) 1 of
               Inl e \<Rightarrow> Inl e
             | Inr part_number_td \<Rightarrow> scan_rows rows (Some (strip part_number_td)) chroma)
          else if str_in ''Chroma'' caption then
            (case item (tds r) 1 of
               Inl e \<Rightarrow> Inl e
             | Inr chroma_td \<Rightarrow> scan_rows rows part_number (Some (strip chroma_td)))
          else scan_rows rows part_number chroma)"

text \<open>Lines 158 to 161: the family is the last token of the second pathway's text.\<close>

definition camera_family_of :: "string list \<Rightarrow> error + string option" where
  "camera_family_of pws =
     (if length pws \<ge> 2 then
        (case last_item (split (pws ! 1)) of Inl e \<Rightarrow> Inl e | Inr t \<Rightarrow> Inr (Some t))
      else Inr None)"

text \<open>The truth value of a \<open>str\<close> or \<open>None\<close>.\<close>

fun truthy :: "string option \<Rightarrow> bool" where
  "truthy None = False"
| "truthy (Some s) = (s \<noteq> [])"

definition new_record :: "string \<Rightarrow> string \<Rightarrow> catalog_record" where
  "new_record camera_type camera_family =
     \<lparr>cameraType = camera_type, cameraFamily = camera_family,
      mosaicWidth = 0, mosaicHeight = 0\<rparr>"

text \<open>
  The \<open>progress\<close> argument, as far as the script uses it: \<open>progress.log(message)\<close>.
  \<open>rich\<close> reads the message as console markup, so the call either writes the line
  (\<open>None\<close>) or raises (for instance \<open>MarkupError\<close> on a closing tag that closes
  nothing).
\<close>

type_synonym progress = "string \<Rightarrow> error option"

text \<open>\<open>{part_number}\<close> inside an f-string: \<open>str\<close> of a string or of \<open>None\<close>.\<close>

fun format_str :: "string option \<Rightarrow> string" where
  "format_str None = ''None''"
| "format_str (Some s) = s"

text \<open>The two messages of lines 163 and 171.\<close>

definition family_message :: "string option \<Rightarrow> string" where
  "family_message part_number =
     ''Skipping camera family '' @ [CHR 0x27] @ ''sensors'' @ [CHR 0x27]
       @ '' for camera: '' @ format_str part_number"

definition chroma_message :: "string \<Rightarrow> string \<Rightarrow> string" where
  "chroma_message chroma part_number =
     ''Skipping unknown chroma '' @ chroma @ '' for camera: '' @ part_number"

text \<open>
  The loop over the product divs (lines 136 to 178), with the local dictionary and
  the console passed along. An exception ends the loop; what was logged stays logged.
\<close>

fun extract_divs ::
  "row list list \<Rightarrow> document \<Rightarrow> progress \<Rightarrow> pdict \<Rightarrow> event list
     \<Rightarrow> error option \<times> pdict \<times> event list"
where
  "extract_divs [] soup progress temp out = (None, temp, out)"
| "extract_divs (d # divs) soup progress temp out =
     (case scan_rows d None None of
        Inl e \<Rightarrow> (Some e, temp, out)
      | Inr (part_number, chroma) \<Rightarrow>
          (case camera_family_of (pathways soup) of
             Inl e \<Rightarrow> (Some e, temp, out)
           | Inr camera_family \<Rightarrow>
               if camera_family \<notin> set (map Some known_families) then
                 (case progress (family_message part_number) of
                    Some e \<Rightarrow> (Some e, temp, out)
                  | None \<Rightarrow>
                      extract_divs divs soup progress temp (out @ [SkipFamily part_number]))
               else if truthy part_number \<and> truthy chroma then
                 (if str_in ''color'' (lower (the chroma)) then
                    extract_divs divs soup progress
                      (dict_set (the part_number) (new_record ''rgb'' (the camera_family)) temp) out
                  else if str_in ''monochrome'' (lower (the chroma))
                          \<or> str_in ''nir'' (lower (the chroma)) then
                    extract_divs divs soup progress
                      (dict_set (the part_number) (new_record ''gray'' (the camera_family)) temp) out
                  else
                    (case progress (chroma_message (the chroma) (the part_number)) of
                       Some e \<Rightarrow> (Some e, temp, out)
                     | None \<Rightarrow>
                         extract_divs divs soup progress temp
                           (out @ [SkipChroma (the chroma) (the part_number)])))
               else extract_divs divs soup progress temp out))"

text \<open>
  \<open>extract_part_numbers_and_chroma\<close>: the local dictionary is merged into the shared
  one only when the loop has ended without an exception.
\<close>

definition extract_part_numbers_and_chroma ::
  "row list list \<Rightarrow> document \<Rightarrow> crawl_state \<Rightarrow> progress
     \<Rightarrow> error option \<times> crawl_state"
where
  "extract_part_numbers_and_chroma divs soup st progress =
     (case extract_divs divs soup progress [] (console st) of
        (Some e, temp, out) \<Rightarrow> (Some e, st\<lparr>console := out\<rparr>)
      | (None, temp, out) \<Rightarrow>
          (None, \<lparr>part_numbers_data = dict_update (part_numbers_data st) temp,
                  console = out\<rparr>))"

section \<open>The crawl\<close>

text \<open>
  What the crawl uses from outside the script:
  \<^item> \<open>http_get\<close>: \<open>requests.get\<close>, \<open>raise_for_status\<close> and the HTML parser in one, the
    error being the exception of a fetch that fails;
  \<^item> \<open>urljoin\<close>: \<open>urllib.parse.urljoin\<close>, which raises on some malformed URLs;
  \<^item> \<open>progress_log\<close>: the \<open>log\<close> of the \<open>Progress\<close> that \<open>fetch_part_numbers\<close> creates;
  \<^item> \<open>as_completed\<close>: the order in which the tasks of one thread pool complete. A
    task is named by the link it was submitted for, and a page task runs as one step
    of the crawl.
\<close>

record env =
  http_get :: "string \<Rightarrow> error + document"
  urljoin :: "string \<Rightarrow> string \<Rightarrow> error + string"
  progress_log :: progress
  as_completed :: "string list \<Rightarrow> string list"

definition fetch_main_categories :: "env \<Rightarrow> string \<Rightarrow> error + string list" where
  "fetch_main_categories env link_url =
     (case http_get env link_url of
        Inl e \<Rightarrow> Inl e
      | Inr soup \<Rightarrow> Inr (main_categories soup))"

definition fetch_subcategories :: "env \<Rightarrow> string \<Rightarrow> string \<Rightarrow> error + string list" where
  "fetch_subcategories env link_url subcategory_url =
     (case urljoin env link_url subcategory_url of
        Inl e \<Rightarrow> Inl e
      | Inr url \<Rightarrow>
          (case http_get env url of
             Inl e \<Rightarrow> Inl e
           | Inr soup \<Rightarrow> Inr (browse_blocks soup)))"

definition scrape_linked_page ::
  "env \<Rightarrow> string \<Rightarrow> string \<Rightarrow> crawl_state \<Rightarrow> progress \<Rightarrow> error option \<times> crawl_state"
where
  "scrape_linked_page env link_url base_url st progress =
     (case urljoin env base_url link_url of
        Inl e \<Rightarrow> (Some e, st)
      | Inr url \<Rightarrow>
          (case http_get env url of
             Inl e \<Rightarrow> (Some e, st)
           | Inr soup \<Rightarrow>
               extract_part_numbers_and_chroma (product_divs soup) soup st progress))"

text \<open>
  The dictionary comprehension of lines 104 to 108 submits one task per product
  link, with the joined URL as its argument. If \<open>urljoin\<close> raises, the tasks already
  submitted stay submitted.
\<close>

fun submit_products :: "env \<Rightarrow> string \<Rightarrow> string list \<Rightarrow> string list \<times> error option" where
  "submit_products env link_url [] = ([], None)"
| "submit_products env link_url (product_link # links) =
     (case urljoin env link_url product_link of
        Inl e \<Rightarrow> ([], Some e)
      | Inr url \<Rightarrow>
          (case submit_products env link_url links of (urls, r) \<Rightarrow> (url # urls, r)))"

text \<open>
  One product task and, when the loop of line 109 is reached (\<open>reported\<close>), the
  \<open>try\<close> around its result.
\<close>

definition product_task :: "env \<Rightarrow> string \<Rightarrow> bool \<Rightarrow> string \<Rightarrow> crawl_state \<Rightarrow> crawl_state" where
  "product_task env link_url reported url st =
     (case scrape_linked_page env url link_url st (progress_log env) of
        (None, st') \<Rightarrow> st'
      | (Some e, st') \<Rightarrow>
          if reported then st'\<lparr>console := console st' @ [ProductError e]\<rparr> else st')"

text \<open>
  The body of the loop of line 99 for one category link: the result of its
  \<open>fetch_subcategories\<close> task, the inner pool, and the outer \<open>try\<close>. Leaving the
  inner \<open>with\<close> block waits for every submitted task.
\<close>

definition subcategory_branch :: "env \<Rightarrow> string \<Rightarrow> string \<Rightarrow> crawl_state \<Rightarrow> crawl_state" where
  "subcategory_branch env link_url link st =
     (case fetch_subcategories env link_url link of
        Inl e \<Rightarrow> st\<lparr>console := console st @ [SubcategoryError e]\<rparr>
      | Inr subcategory_links \<Rightarrow>
          (case submit_products env link_url subcategory_links of
             (urls, None) \<Rightarrow>
               fold (product_task env link_url True) (as_completed env urls) st
           | (urls, Some e) \<Rightarrow>
               (let st' = fold (product_task env link_url False) (as_completed env urls) st
                in st'\<lparr>console := console st' @ [SubcategoryError e]\<rparr>)))"

definition fetch_part_numbers :: "env \<Rightarrow> string \<Rightarrow> error + crawl_state" where
  "fetch_part_numbers env link_url =
     (case fetch_main_categories env link_url of
        Inl e \<Rightarrow> Inl e
      | Inr main_category_links \<Rightarrow>
          Inr (fold (subcategory_branch env link_url)
                 (as_completed env main_category_links)
                 \<lparr>part_numbers_data = [], console = []\<rparr>))"

section \<open>Sorting\<close>

text \<open>
  The sort key \<open>(x[1]['cameraFamily'], x[0])\<close>. Python compares tuples
  lexicographically and strings by code point, which is the order of
  \<open>string \<times> string\<close> here.
\<close>

definition family_and_part_number :: "string \<times> catalog_record \<Rightarrow> string \<times> string" where
  "family_and_part_number x = (cameraFamily (snd x), fst x)"

text \<open>\<open>{k: v for k, v in items}\<close>.\<close>

definition dict_of_items :: "(string \<times> catalog_record) list \<Rightarrow> pdict" where
  "dict_of_items items = fold (\<lambda>(k, v). dict_set k v) items []"

definition sort_by_family_and_part_number :: "pdict \<Rightarrow> pdict" where
  "sort_by_family_and_part_number data =
     (let sorted_data = sort_key family_and_part_number data
      in dict_of_items sorted_data)"

text \<open>\<open>scrap_page\<close> up to the point where the file is written.\<close>

definition scrap_page :: "env \<Rightarrow> string \<Rightarrow> error + pdict" where
  "scrap_page env link_url =
     (case fetch_part_numbers env link_url of
        Inl e \<Rightarrow> Inl e
      | Inr st \<Rightarrow>
          (let part_numbers_data_retrieved =
                 sort_by_family_and_part_number (part_numbers_data st)
           in if length (map fst part_numbers_data_retrieved)
                   = card (set (map fst part_numbers_data_retrieved))
              then Inr part_numbers_data_retrieved
              else Inl AssertionError))"

section \<open>A small catalogue\<close>

text \<open>
  A small site, used to run the definitions: the root lists three categories, one of
  which cannot be fetched; the first category lists five product pages, one of which
  cannot be fetched; the second lists a camera page and a sensor page. A second root
  lists one category whose second product link is a URL that \<open>urljoin\<close> rejects.
\<close>

definition index_page :: "string list \<Rightarrow> string list \<Rightarrow> document" where
  "index_page categories products =
     \<lparr>main_categories = categories, browse_blocks = products,
      product_divs = [], pathways = []\<rparr>"

definition product_page :: "string \<Rightarrow> string \<Rightarrow> string \<Rightarrow> document" where
  "product_page crumb part chroma =
     \<lparr>main_categories = [], browse_blocks = [],
      product_divs =
        [[\<lparr>caption_span = Some ''Part Number'', tds = [''Part Number'', part]\<rparr>,
          \<lparr>caption_span = Some ''Sensor'', tds = [''Sensor'', ''IMX'']\<rparr>,
          \<lparr>caption_span = Some ''Chroma'', tds = [''Chroma'', chroma]\<rparr>]],
      pathways = [''Products'', crumb]\<rparr>"

definition demo_root :: string where
  "demo_root = ''http://x/products''"

definition demo_http_get :: "string \<Rightarrow> error + document" where
  "demo_http_get url =
     (if url = ''http://x/products'' then Inr (index_page [''/usb3'', ''/pcie'', ''/gone''] [])
      else if url = ''http://x/usb3'' then
        Inr (index_page [] [''/mq013cg'', ''/mq013mg'', ''/offline'', ''/mq013rg'', ''/polar''])
      else if url = ''http://x/pcie'' then Inr (index_page [] [''/cb262'', ''/sensor''])
      else if url = ''http://x/mq013cg'' then
        Inr (product_page ''USB3 cameras xiQ'' '' MQ013CG-E2 '' ''Color'')
      else if url = ''http://x/mq013mg'' then
        Inr (product_page ''USB3 cameras xiQ'' ''MQ013MG-E2'' ''Monochrome'')
      else if url = ''http://x/mq013rg'' then
        Inr (product_page ''USB3 cameras xiQ'' ''MQ013RG-E2'' ''NIR enhanced'')
      else if url = ''http://x/polar'' then
        Inr (product_page ''USB3 cameras xiC'' ''MC050ZG-SY'' ''Polarized'')
      else if url = ''http://x/cb262'' then
        Inr (product_page ''PCIe cameras xiB'' ''CB262RG-GP'' ''Color'')
      else if url = ''http://x/sensor'' then
        Inr (product_page ''Sensors'' ''IMX174'' ''Color'')
      else if url = ''http://x/offline'' then Inl ConnectionError
      else if url = ''http://x/other-products'' then Inr (index_page [''/mixed''] [])
      else if url = ''http://x/mixed'' then
        Inr (index_page [] [''/offline'', ''http://[bad'', ''/mq013cg''])
      else Inl (HTTPError 404))"

text \<open>
  \<open>urljoin\<close> on this site: an absolute URL is kept, a path is put behind the host, and
  a host that opens a bracket without closing it is refused (\<open>Invalid IPv6 URL\<close>).
\<close>

definition demo_urljoin :: "string \<Rightarrow> string \<Rightarrow> error + string" where
  "demo_urljoin base url =
     (if prefix ''http://['' url \<and> CHR '']'' \<notin> set url then Inl ValueError
      else if prefix ''http://'' url then Inr url
      else Inr (''http://x'' @ url))"

text \<open>
  A \<open>progress.log\<close> for the examples. \<open>rich\<close> writes a message without a bracket as it
  is, and raises \<open>MarkupError\<close> when the first tag of the message is a closing tag, which
  then closes nothing. The messages of the examples are of these two kinds; any other
  message is accepted here.
\<close>

fun closing_tag_first :: "string \<Rightarrow> bool" where
  "closing_tag_first [] = False"
| "closing_tag_first (c # cs) =
     (if c = CHR ''['' then
        (case cs of
           [] \<Rightarrow> False
         | c' # cs' \<Rightarrow> c' = CHR ''/'' \<and> CHR '']'' \<in> set (takeWhile (\<lambda>x. x \<noteq> CHR ''['') cs'))
      else if c = CHR 0x5C then False
      else closing_tag_first cs)"

definition demo_log :: progress where
  "demo_log message = (if closing_tag_first message then Some MarkupError else None)"

definition demo_env :: env where
  "demo_env =
     \<lparr>http_get = demo_http_get, urljoin = demo_urljoin, progress_log = demo_log,
      as_completed = rev\<rparr>"

definition empty_state :: crawl_state where
  "empty_state = \<lparr>part_numbers_data = [], console = []\<rparr>"

definition demo_data :: pdict where
  "demo_data =
     [(''MC023CG-SY'', new_record ''rgb'' ''xiC''),
      (''CB262RG-GP'', new_record ''rgb'' ''xiB''),
      (''CB019MG-LX'', new_record ''gray'' ''xiB'')]"

text \<open>A product div whose part number row has a single cell.\<close>

definition one_cell_page :: document where
  "one_cell_page =
     \<lparr>main_categories = [], browse_blocks = [],
      product_divs = [[\<lparr>caption_span = Some ''Part Number'', tds = [''Part Number'']\<rparr>]],
      pathways = [''Products'', ''USB3 cameras xiQ'']\<rparr>"

text \<open>A product page whose second breadcrumb has no text.\<close>

definition empty_crumb_page :: document where
  "empty_crumb_page = product_page '' '' ''MQ013CG-E2'' ''Color''"

text \<open>The extractor on one page, from the empty state.\<close>

definition extract_page :: "document \<Rightarrow> error option \<times> crawl_state" where
  "extract_page soup =
     extract_part_numbers_and_chroma (product_divs soup) soup empty_state demo_log"


definition sensor_page :: document where
  "sensor_page = product_page ''Sensors'' ''IMX174'' ''Color''"

text \<open>A product page with a single breadcrumb.\<close>

definition short_crumb_page :: document where
  "short_crumb_page =
     (product_page ''USB3 cameras xiQ'' ''MQ013CG-E2'' ''Color'')\<lparr>pathways := [''Products'']\<rparr>"

text \<open>
  A page with a single breadcrumb and three product divs, the second of which has a
  part number row of one cell.
\<close>

definition short_crumb_rows_page :: document where
  "short_crumb_rows_page =
     \<lparr>main_categories = [], browse_blocks = [],
      product_divs =
        [[\<lparr>caption_span = Some ''Part Number'', tds = [''Part Number'', ''A-1'']\<rparr>,
          \<lparr>caption_span = Some ''Chroma'', tds = [''Chroma'', ''Color'']\<rparr>],
         [\<lparr>caption_span = Some ''Part Number'', tds = [''Part Number'']\<rparr>],
         [\<lparr>caption_span = Some ''Part Number'', tds = [''Part Number'', ''B-2'']\<rparr>,
          \<lparr>caption_span = Some ''Chroma'', tds = [''Chroma'', ''Color'']\<rparr>]],
      pathways = [''Products'']\<rparr>"

text \<open>
  A page with a single breadcrumb and two product divs, the first of which has a part
  number that reads as a closing tag.
\<close>

definition short_crumb_tag_page :: document where
  "short_crumb_tag_page =
     \<lparr>main_categories = [], browse_blocks = [],
      product_divs =
        [[\<lparr>caption_span = Some ''Part Number'', tds = [''Part Number'', ''IMX[/b]'']\<rparr>],
         [\<lparr>caption_span = Some ''Part Number'', tds = [''Part Number'', ''B-2'']\<rparr>]],
      pathways = [''Products'']\<rparr>"

definition demo_output :: pdict where
  "demo_output =
     [(''CB262RG-GP'', new_record ''rgb'' ''xiB''),
      (''MQ013CG-E2'', new_record ''rgb'' ''xiQ''),
      (''MQ013MG-E2'', new_record ''gray'' ''xiQ''),
      (''MQ013RG-E2'', new_record ''gray'' ''xiQ'')]"

text \<open>The entries the crawl may store: a non-empty key and a known family.\<close>

abbreviation valid_entries :: "pdict \<Rightarrow> bool" where
  "valid_entries d \<equiv> \<forall>(k, v)\<in>set d. k \<noteq> [] \<and> cameraFamily v \<in> set known_families"

section \<open>Dictionaries: basic facts\<close>

lemma dict_set_fresh:
  "k \<notin> fst ` set d \<Longrightarrow> dict_set k v d = d @ [(k, v)]"
  by (induction d) auto

lemma fold_dict_set_distinct:
  "distinct (map fst (acc @ xs)) \<Longrightarrow> fold (\<lambda>(k, v). dict_set k v) xs acc = acc @ xs"
proof (induction xs arbitrary: acc)
  case Nil
  then show ?case by simp
next
  case (Cons x xs)
  obtain k v where x: "x = (k, v)" by (cases x)
  from Cons.prems have fresh: "k \<notin> fst ` set acc" by (auto simp: x)
  from Cons.prems have "distinct (map fst ((acc @ [(k, v)]) @ xs))" by (simp add: x)
  from Cons.IH [OF this] show ?case by (simp add: x dict_set_fresh [OF fresh])
qed

lemma dict_of_items_distinct:
  "distinct (map fst xs) \<Longrightarrow> dict_of_items xs = xs"
  using fold_dict_set_distinct [of "[]" xs] by (simp add: dict_of_items_def)

lemma set_dict_set: "set (dict_set k v d) \<subseteq> insert (k, v) (set d)"
  by (induction d) (auto split: if_splits)

lemma map_fst_dict_set:
  "map fst (dict_set k v d) = (if k \<in> fst ` set d then map fst d else map fst d @ [k])"
  by (induction d) (auto split: if_splits)

lemma keys_dict_set: "fst ` set (dict_set k v d) = insert k (fst ` set d)"
proof -
  have "set (map fst (dict_set k v d)) = insert k (set (map fst d))"
    by (auto simp: map_fst_dict_set)
  then show ?thesis by simp
qed

lemma is_dict_dict_set: "is_dict d \<Longrightarrow> is_dict (dict_set k v d)"
  by (simp add: is_dict_def map_fst_dict_set)

lemma valid_dict_set:
  "k \<noteq> [] \<Longrightarrow> cameraFamily v \<in> set known_families \<Longrightarrow> valid_entries d
   \<Longrightarrow> valid_entries (dict_set k v d)"
  using set_dict_set [of k v d] by auto

lemma set_fold_dict_set:
  "set (fold (\<lambda>(k, v). dict_set k v) xs acc) \<subseteq> set acc \<union> set xs"
proof (induction xs arbitrary: acc)
  case Nil
  show ?case by simp
next
  case (Cons x xs)
  obtain k v where x: "x = (k, v)" by (cases x)
  from Cons.IH [of "dict_set k v acc"] set_dict_set [of k v acc]
  show ?case by (auto simp: x)
qed

lemma dict_update_Nil: "dict_update d [] = d"
  by (simp add: dict_update_def)


section \<open>Sorting by family and part number\<close>

lemma distinct_keys_sort_key:
  "distinct (map fst (sort_key f xs)) = distinct (map fst xs)"
proof -
  have "mset (map fst (sort_key f xs)) = mset (map fst xs)" by simp
  then show ?thesis by (rule mset_eq_imp_distinct_iff)
qed

lemma sort_by_family_is_sort_key:
  "is_dict d \<Longrightarrow> sort_by_family_and_part_number d = sort_key family_and_part_number d"
  by (simp add: sort_by_family_and_part_number_def is_dict_def dict_of_items_distinct
      distinct_keys_sort_key)

text \<open>
  Claim C6. For a dictionary \<open>d\<close>, \<open>sort_by_family_and_part_number d\<close> is ordered
  non-decreasingly by the pair (cameraFamily, partNumber) under lexicographic string
  comparison and has exactly the entries of \<open>d\<close>, none added, removed or modified;
  it is again a dictionary. Hence an entry never follows one of a greater family, and
  inside one family the part numbers increase.
\<close>

theorem sort_ordered_permutation:
  assumes "is_dict d"
  shows "sorted (map family_and_part_number (sort_by_family_and_part_number d))
       \<and> mset (sort_by_family_and_part_number d) = mset d
       \<and> is_dict (sort_by_family_and_part_number d)
       \<and> (\<forall>i j. i < j \<and> j < length d \<longrightarrow>
            (let x = sort_by_family_and_part_number d ! i;
                 y = sort_by_family_and_part_number d ! j
             in cameraFamily (snd x) \<le> cameraFamily (snd y)
                \<and> (cameraFamily (snd x) = cameraFamily (snd y) \<longrightarrow> fst x < fst y)))"
proof -
  let ?r = "sort_by_family_and_part_number d"
  have r: "?r = sort_key family_and_part_number d"
    using assms by (rule sort_by_family_is_sort_key)
  have srt: "sorted (map family_and_part_number ?r)" by (simp add: r)
  have perm: "mset ?r = mset d" by (simp add: r)
  have dict: "is_dict ?r" using assms by (simp add: r is_dict_def distinct_keys_sort_key)
  have len: "length ?r = length d" by (simp add: r)
  have pairs: "cameraFamily (snd (?r ! i)) \<le> cameraFamily (snd (?r ! j))
       \<and> (cameraFamily (snd (?r ! i)) = cameraFamily (snd (?r ! j))
            \<longrightarrow> fst (?r ! i) < fst (?r ! j))"
    if "i < j" "j < length d" for i j
  proof -
    from that len have ij: "i < length ?r" "j < length ?r" by simp_all
    from srt that ij have "family_and_part_number (?r ! i) \<le> family_and_part_number (?r ! j)"
      by (simp add: sorted_iff_nth_mono)
    then have le: "cameraFamily (snd (?r ! i)) < cameraFamily (snd (?r ! j))
        \<or> (cameraFamily (snd (?r ! i)) = cameraFamily (snd (?r ! j))
             \<and> fst (?r ! i) \<le> fst (?r ! j))"
      by (auto simp: family_and_part_number_def less_eq_prod_def)
    from dict ij that have "fst (?r ! i) \<noteq> fst (?r ! j)"
      by (simp add: is_dict_def distinct_conv_nth)
    with le show ?thesis by auto
  qed
  from srt perm dict pairs show ?thesis by (simp add: Let_def)
qed

theorem sort_ordered_permutation_witness:
  "is_dict demo_data
   \<and> sort_by_family_and_part_number demo_data =
       [(''CB019MG-LX'', new_record ''gray'' ''xiB''),
        (''CB262RG-GP'', new_record ''rgb'' ''xiB''),
        (''MC023CG-SY'', new_record ''rgb'' ''xiC'')]
   \<and> sorted (map family_and_part_number (sort_by_family_and_part_number demo_data))
   \<and> mset (sort_by_family_and_part_number demo_data) = mset demo_data"
proof -
  have d: "is_dict demo_data" by (simp add: is_dict_def demo_data_def)
  have v: "sort_by_family_and_part_number demo_data =
       [(''CB019MG-LX'', new_record ''gray'' ''xiB''),
        (''CB262RG-GP'', new_record ''rgb'' ''xiB''),
        (''MC023CG-SY'', new_record ''rgb'' ''xiC'')]"
    by code_simp
  from sort_ordered_permutation [OF d] d v show ?thesis by blast
qed

text \<open>
  Claim C7. Sorting is idempotent: for a dictionary \<open>d\<close>, sorting the sorted
  dictionary again gives the same entries in the same order.
\<close>

theorem sort_idempotent:
  assumes "is_dict d"
  shows "sort_by_family_and_part_number (sort_by_family_and_part_number d)
       = sort_by_family_and_part_number d"
proof -
  let ?r = "sort_key family_and_part_number d"
  have r: "sort_by_family_and_part_number d = ?r"
    using assms by (rule sort_by_family_is_sort_key)
  have "is_dict ?r" using assms by (simp add: is_dict_def distinct_keys_sort_key)
  then have "sort_by_family_and_part_number ?r = sort_key family_and_part_number ?r"
    by (rule sort_by_family_is_sort_key)
  also have "\<dots> = ?r" by (rule sort_key_id_if_sorted) simp
  finally show ?thesis by (simp add: r)
qed

theorem sort_idempotent_witness:
  "is_dict demo_data
   \<and> sort_by_family_and_part_number (sort_by_family_and_part_number demo_data)
     = sort_by_family_and_part_number demo_data"
proof -
  have d: "is_dict demo_data" by (simp add: is_dict_def demo_data_def)
  from sort_idempotent [OF d] d show ?thesis by simp
qed

section \<open>The record extractor: what one page stores\<close>

lemma extract_divs_unknown_family:
  assumes "\<forall>f\<in>set known_families. camera_family_of (pathways soup) \<noteq> Inr (Some f)"
  shows "fst (snd (extract_divs divs soup progress temp out)) = temp"
proof (induction divs arbitrary: out)
  case Nil
  show ?case by simp
next
  case (Cons d divs)
  show ?case
  proof (cases "scan_rows d None None")
    case (Inl e)
    then show ?thesis by simp
  next
    case (Inr pc)
    obtain part_number chroma where pc: "pc = (part_number, chroma)" by (cases pc)
    show ?thesis
    proof (cases "camera_family_of (pathways soup)")
      case (Inl e)
      with Inr pc show ?thesis by simp
    next
      case fam: (Inr camera_family)
      with assms have unk: "camera_family \<notin> set (map Some known_families)" by auto
      show ?thesis
      proof (cases "progress (family_message part_number)")
        case None
        with Inr pc fam unk Cons.IH show ?thesis by simp
      next
        case (Some e)
        with Inr pc fam unk show ?thesis by simp
      qed
    qed
  qed
qed

lemma extract_unknown_family_no_merge:
  assumes "\<forall>f\<in>set known_families. camera_family_of (pathways soup) \<noteq> Inr (Some f)"
  shows "part_numbers_data (snd (extract_part_numbers_and_chroma divs soup st progress))
       = part_numbers_data st"
proof -
  obtain s temp out
    where r: "extract_divs divs soup progress [] (console st) = (s, temp, out)"
    by (cases "extract_divs divs soup progress [] (console st)")
  from extract_divs_unknown_family [OF assms, of divs progress "[]" "console st"] r
  have "temp = []" by simp
  with r show ?thesis
    by (cases s) (simp_all add: extract_part_numbers_and_chroma_def dict_update_Nil)
qed





text \<open>
  Claim C3. When the camera family extracted from a page is not one of the known
  family tags (none is extracted, or an unknown one), the extractor stores no record
  for any product div of the page, whatever part numbers and chroma values the divs
  hold: the local dictionary does not grow and the shared dictionary is unchanged. On
  the example page with family "Sensors", a part number and a chroma value, nothing is
  stored.
\<close>

theorem family_filter_no_records:
  assumes "\<forall>f\<in>set known_families. camera_family_of (pathways soup) \<noteq> Inr (Some f)"
  shows "fst (snd (extract_divs divs soup progress temp out)) = temp
       \<and> part_numbers_data (snd (extract_part_numbers_and_chroma divs soup st progress))
           = part_numbers_data st
       \<and> scan_rows (hd (product_divs sensor_page)) None None
           = Inr (Some ''IMX174'', Some ''Color'')
       \<and> camera_family_of (pathways sensor_page) = Inr (Some ''Sensors'')
       \<and> extract_page sensor_page =
           (None, \<lparr>part_numbers_data = [], console = [SkipFamily (Some ''IMX174'')]\<rparr>)"
proof -
  have e1: "scan_rows (hd (product_divs sensor_page)) None None
           = Inr (Some ''IMX174'', Some ''Color'')" by code_simp
  have e2: "camera_family_of (pathways sensor_page) = Inr (Some ''Sensors'')" by code_simp
  have e3: "extract_page sensor_page =
           (None, \<lparr>part_numbers_data = [], console = [SkipFamily (Some ''IMX174'')]\<rparr>)"
    by code_simp
  from extract_divs_unknown_family [OF assms, of divs progress temp out]
    extract_unknown_family_no_merge [OF assms, of divs st progress] e1 e2 e3
  show ?thesis by (simp only: simp_thms)
qed

theorem family_filter_no_records_witness:
  "camera_family_of (pathways sensor_page) = Inr (Some ''Sensors'')
   \<and> ''Sensors'' \<notin> set known_families
   \<and> part_numbers_data
       (snd (extract_part_numbers_and_chroma (product_divs sensor_page) sensor_page
          \<lparr>part_numbers_data = demo_data, console = []\<rparr> demo_log)) = demo_data"
proof -
  have h: "\<forall>f\<in>set known_families. camera_family_of (pathways sensor_page) \<noteq> Inr (Some f)"
    by code_simp
  have e2: "camera_family_of (pathways sensor_page) = Inr (Some ''Sensors'')" by code_simp
  have e3: "''Sensors'' \<notin> set known_families" by (simp add: known_families_def)
  from family_filter_no_records [OF h, of "product_divs sensor_page" demo_log "[]" "[]"
      "\<lparr>part_numbers_data = demo_data, console = []\<rparr>"] e2 e3
  show ?thesis by simp
qed

text \<open>
  Claim C8, as the code has it. The extractor raises \<open>IndexError\<close> on a product div
  whose "Part Number" row has a single cell, and on a page whose second breadcrumb
  has no text; in both cases nothing is stored.
\<close>

theorem extractor_raises_index_error:
  "extract_page one_cell_page = (Some IndexError, empty_state)
   \<and> extract_page empty_crumb_page = (Some IndexError, empty_state)"
  by code_simp

text \<open>
  Claim C10, as the code has it. On a page with fewer than two breadcrumb elements the
  family stays absent and nothing is stored, but not every product div reaches the
  family filter. With three divs of which the second has a part number row of one
  cell, the first div is skipped by the filter, the second raises \<open>IndexError\<close> and the
  third is never looked at. With a part number that reads as a closing tag, the log
  call of the filter raises \<open>MarkupError\<close> and the second div is never looked at.
\<close>

theorem short_breadcrumb_divs_not_all_filtered:
  "length (pathways short_crumb_rows_page) < 2
   \<and> camera_family_of (pathways short_crumb_rows_page) = Inr None
   \<and> length (product_divs short_crumb_rows_page) = 3
   \<and> extract_page short_crumb_rows_page =
       (Some IndexError,
        \<lparr>part_numbers_data = [], console = [SkipFamily (Some ''A-1'')]\<rparr>)
   \<and> length (pathways short_crumb_tag_page) < 2
   \<and> length (product_divs short_crumb_tag_page) = 2
   \<and> extract_page short_crumb_tag_page = (Some MarkupError, empty_state)"
  by code_simp

section \<open>The crawl: what every run preserves\<close>

text \<open>The records the extractor builds are valid.\<close>

lemma new_record_family: "cameraFamily (new_record t f) = f"
  by (simp add: new_record_def)

lemma extract_divs_valid:
  "valid_entries temp \<Longrightarrow> valid_entries (fst (snd (extract_divs divs soup progress temp out)))"
proof (induction divs arbitrary: temp out)
  case Nil
  then show ?case by simp
next
  case (Cons d divs)
  show ?case
  proof (cases "scan_rows d None None")
    case (Inl e)
    with Cons.prems show ?thesis by simp
  next
    case (Inr pc)
    obtain part_number chroma where pc: "pc = (part_number, chroma)" by (cases pc)
    show ?thesis
    proof (cases "camera_family_of (pathways soup)")
      case (Inl e)
      with Inr pc Cons.prems show ?thesis by simp
    next
      case fam: (Inr camera_family)
      show ?thesis
      proof (cases "camera_family \<in> set (map Some known_families)
                    \<and> truthy part_number \<and> truthy chroma")
        case False
        with Inr pc fam Cons.IH [OF Cons.prems] Cons.prems show ?thesis
          by (auto split: option.splits)
      next
        case True
        then obtain f pn where f: "camera_family = Some f" "f \<in> set known_families"
          and pn: "part_number = Some pn" "pn \<noteq> []"
          by (cases part_number) auto
        have v: "valid_entries (dict_set pn (new_record t f) temp)" for t
          using valid_dict_set [OF pn(2) _ Cons.prems, of "new_record t f"] f(2)
          by (simp add: new_record_family)
        from True have k: "camera_family \<in> set (map Some known_families)"
          "truthy part_number" "truthy chroma" by simp_all
        show ?thesis
          using Inr pc fam k f(1) pn(1) Cons.IH [OF v] Cons.IH [OF Cons.prems] Cons.prems
          by (simp split: option.splits)
      qed
    qed
  qed
qed

text \<open>
  A property of the shared dictionary that every valid store preserves is preserved by
  the whole crawl.
\<close>

lemma dict_update_preserves:
  assumes step: "\<And>k v d. k \<noteq> [] \<Longrightarrow> cameraFamily v \<in> set known_families \<Longrightarrow> P d
                  \<Longrightarrow> P (dict_set k v d)"
      and "valid_entries e" and "P d"
  shows "P (dict_update d e)"
  using assms(2,3) unfolding dict_update_def
proof (induction e arbitrary: d)
  case Nil
  then show ?case by simp
next
  case (Cons x e)
  obtain k v where x: "x = (k, v)" by (cases x)
  from Cons.prems have "k \<noteq> []" "cameraFamily v \<in> set known_families" "valid_entries e"
    by (auto simp: x)
  with Cons.IH [of "dict_set k v d"] step [of k v d] Cons.prems(2)
  show ?case by (simp add: x)
qed

lemma extract_preserves:
  assumes step: "\<And>k v d. k \<noteq> [] \<Longrightarrow> cameraFamily v \<in> set known_families \<Longrightarrow> P d
                  \<Longrightarrow> P (dict_set k v d)"
      and "P (part_numbers_data st)"
  shows "P (part_numbers_data (snd (extract_part_numbers_and_chroma divs soup st progress)))"
proof -
  obtain s temp out
    where r: "extract_divs divs soup progress [] (console st) = (s, temp, out)"
    by (cases "extract_divs divs soup progress [] (console st)")
  from extract_divs_valid [of "[]" divs soup progress "console st"] r
  have "valid_entries temp" by simp
  from dict_update_preserves [of P, OF step this assms(2)] assms(2) r
  show ?thesis
    by (cases s) (simp_all add: extract_part_numbers_and_chroma_def)
qed

lemma scrape_preserves:
  assumes step: "\<And>k v d. k \<noteq> [] \<Longrightarrow> cameraFamily v \<in> set known_families \<Longrightarrow> P d
                  \<Longrightarrow> P (dict_set k v d)"
      and "P (part_numbers_data st)"
  shows "P (part_numbers_data (snd (scrape_linked_page env url base st progress)))"
  using assms(2) extract_preserves [of P, OF step assms(2)]
  by (simp add: scrape_linked_page_def split: sum.splits)

lemma product_task_preserves:
  assumes step: "\<And>k v d. k \<noteq> [] \<Longrightarrow> cameraFamily v \<in> set known_families \<Longrightarrow> P d
                  \<Longrightarrow> P (dict_set k v d)"
      and "P (part_numbers_data st)"
  shows "P (part_numbers_data (product_task env base reported url st))"
proof -
  obtain s st' where r: "scrape_linked_page env url base st (progress_log env) = (s, st')"
    by (cases "scrape_linked_page env url base st (progress_log env)")
  from scrape_preserves [of P, OF step assms(2), of env url base "progress_log env"] r
  have "P (part_numbers_data st')" by simp
  with r show ?thesis by (cases s) (simp_all add: product_task_def)
qed

lemma product_tasks_preserve:
  assumes step: "\<And>k v d. k \<noteq> [] \<Longrightarrow> cameraFamily v \<in> set known_families \<Longrightarrow> P d
                  \<Longrightarrow> P (dict_set k v d)"
      and "P (part_numbers_data st)"
  shows "P (part_numbers_data (fold (product_task env base reported) urls st))"
  using assms(2)
proof (induction urls arbitrary: st)
  case Nil
  then show ?case by simp
next
  case (Cons u urls)
  from Cons.IH [OF product_task_preserves [of P, OF step Cons.prems]]
  show ?case by simp
qed

lemma subcategory_branch_preserves:
  assumes step: "\<And>k v d. k \<noteq> [] \<Longrightarrow> cameraFamily v \<in> set known_families \<Longrightarrow> P d
                  \<Longrightarrow> P (dict_set k v d)"
      and "P (part_numbers_data st)"
  shows "P (part_numbers_data (subcategory_branch env base link st))"
  using assms(2) product_tasks_preserve [of P, OF step assms(2)]
  by (simp add: subcategory_branch_def Let_def split: sum.splits prod.splits option.splits)

lemma subcategory_branches_preserve:
  assumes step: "\<And>k v d. k \<noteq> [] \<Longrightarrow> cameraFamily v \<in> set known_families \<Longrightarrow> P d
                  \<Longrightarrow> P (dict_set k v d)"
      and "P (part_numbers_data st)"
  shows "P (part_numbers_data (fold (subcategory_branch env base) links st))"
  using assms(2)
proof (induction links arbitrary: st)
  case Nil
  then show ?case by simp
next
  case (Cons l links)
  from Cons.IH [OF subcategory_branch_preserves [of P, OF step Cons.prems]]
  show ?case by simp
qed

lemma fetch_part_numbers_preserves:
  assumes step: "\<And>k v d. k \<noteq> [] \<Longrightarrow> cameraFamily v \<in> set known_families \<Longrightarrow> P d
                  \<Longrightarrow> P (dict_set k v d)"
      and "P []"
      and "fetch_part_numbers env link_url = Inr st"
  shows "P (part_numbers_data st)"
  using assms(3)
    subcategory_branches_preserve [of P "\<lparr>part_numbers_data = [], console = []\<rparr>", OF step]
    assms(2)
  by (auto simp: fetch_part_numbers_def split: sum.splits)

lemma fetch_part_numbers_valid:
  "fetch_part_numbers env link_url = Inr st \<Longrightarrow> valid_entries (part_numbers_data st)"
  by (rule fetch_part_numbers_preserves [of valid_entries]) (simp_all add: valid_dict_set)

lemma fetch_part_numbers_is_dict:
  "fetch_part_numbers env link_url = Inr st \<Longrightarrow> is_dict (part_numbers_data st)"
  by (rule fetch_part_numbers_preserves [of is_dict])
    (simp_all add: is_dict_dict_set, simp add: is_dict_def)

lemma set_sort_by_family:
  "set (sort_by_family_and_part_number d) \<subseteq> set d"
  using set_fold_dict_set [of "sort_key family_and_part_number d" "[]"]
  by (simp add: sort_by_family_and_part_number_def dict_of_items_def)

lemma fetch_part_numbers_fails_iff:
  "fetch_part_numbers env link_url = Inl e \<longleftrightarrow> http_get env link_url = Inl e"
  by (simp add: fetch_part_numbers_def fetch_main_categories_def split: sum.splits)

lemma sorted_output_distinct:
  assumes "is_dict d"
  shows "length (sort_by_family_and_part_number d)
       = card (fst ` set (sort_by_family_and_part_number d))"
proof -
  have "distinct (map fst (sort_key family_and_part_number d))"
    using assms by (simp only: is_dict_def distinct_keys_sort_key)
  then have "card (set (map fst (sort_key family_and_part_number d)))
      = length (map fst (sort_key family_and_part_number d))"
    by (rule distinct_card)
  then show ?thesis
    by (simp add: sort_by_family_is_sort_key [OF assms])
qed

lemma scrap_page_fails_iff:
  "scrap_page env link_url = Inl e \<longleftrightarrow> http_get env link_url = Inl e"
proof (cases "fetch_part_numbers env link_url")
  case (Inl e')
  then have "http_get env link_url = Inl e'"
    by (simp add: fetch_part_numbers_fails_iff)
  with Inl show ?thesis by (simp add: scrap_page_def)
next
  case (Inr st)
  have "fetch_part_numbers env link_url \<noteq> Inl e" using Inr by simp
  then have ok: "http_get env link_url \<noteq> Inl e"
    by (simp add: fetch_part_numbers_fails_iff)
  have "scrap_page env link_url
      = Inr (sort_by_family_and_part_number (part_numbers_data st))"
    using sorted_output_distinct [OF fetch_part_numbers_is_dict [OF Inr]]
    by (simp add: scrap_page_def Inr)
  with ok show ?thesis by simp
qed

text \<open>
  Claim C1. Whenever the crawl and the final sort produce an output, every entry of it
  has a non-empty part number as its key and a cameraFamily from the known set
  xiC, xiQ, xiSpec, xiX, xiB, xiB-64, xiRAY.
\<close>

theorem crawl_output_valid:
  assumes "scrap_page env link_url = Inr out"
  shows "\<forall>(k, v)\<in>set out. k \<noteq> [] \<and> cameraFamily v \<in> set known_families"
proof -
  obtain st where st: "fetch_part_numbers env link_url = Inr st"
    using assms by (cases "fetch_part_numbers env link_url") (simp_all add: scrap_page_def)
  have "scrap_page env link_url
      = Inr (sort_by_family_and_part_number (part_numbers_data st))"
    using sorted_output_distinct [OF fetch_part_numbers_is_dict [OF st]]
    by (simp add: scrap_page_def st)
  with assms have out: "out = sort_by_family_and_part_number (part_numbers_data st)"
    by simp
  from fetch_part_numbers_valid [OF st] set_sort_by_family [of "part_numbers_data st"]
  show ?thesis unfolding out by blast
qed

theorem crawl_output_valid_witness:
  "scrap_page demo_env demo_root = Inr demo_output
   \<and> (''CB262RG-GP'', new_record ''rgb'' ''xiB'') \<in> set demo_output
   \<and> ''CB262RG-GP'' \<noteq> []
   \<and> cameraFamily (new_record ''rgb'' ''xiB'') \<in> set known_families"
proof -
  have h: "scrap_page demo_env demo_root = Inr demo_output" by code_simp
  have m: "(''CB262RG-GP'', new_record ''rgb'' ''xiB'') \<in> set demo_output"
    by (simp add: demo_output_def)
  from crawl_output_valid [OF h] m
  have "''CB262RG-GP'' \<noteq> [] \<and> cameraFamily (new_record ''rgb'' ''xiB'') \<in> set known_families"
    by blast
  with h m show ?thesis by (simp only: simp_thms)
qed

text \<open>
  Claim C4. If the fetch of the root page fails with an error, \<open>fetch_main_categories\<close>,
  \<open>fetch_part_numbers\<close> and \<open>scrap_page\<close> fail with that same error: no dictionary, not
  even a partial one, is returned.
\<close>

theorem root_failure_fatal:
  assumes "http_get env link_url = Inl e"
  shows "fetch_main_categories env link_url = Inl e
       \<and> fetch_part_numbers env link_url = Inl e
       \<and> scrap_page env link_url = Inl e"
proof -
  have m: "fetch_main_categories env link_url = Inl e"
    using assms by (simp add: fetch_main_categories_def)
  then have f: "fetch_part_numbers env link_url = Inl e"
    by (simp add: fetch_part_numbers_def)
  then have "scrap_page env link_url = Inl e"
    by (simp add: scrap_page_def)
  with m f show ?thesis by simp
qed

theorem root_failure_fatal_witness:
  "http_get demo_env ''http://x/offline'' = Inl ConnectionError
   \<and> fetch_part_numbers demo_env ''http://x/offline'' = Inl ConnectionError
   \<and> scrap_page demo_env ''http://x/offline'' = Inl ConnectionError"
proof -
  have h: "http_get demo_env ''http://x/offline'' = Inl ConnectionError" by code_simp
  from root_failure_fatal [OF h] h show ?thesis by (simp only: simp_thms)
qed

section \<open>The crawl: failures stay in their branch\<close>

text \<open>The console is only appended to, and what a page stores does not depend on it.\<close>

lemma extract_divs_console:
  "extract_divs divs soup progress temp out =
     (case extract_divs divs soup progress temp [] of (s, t, l) \<Rightarrow> (s, t, out @ l))"
proof (induction divs arbitrary: temp out)
  case Nil
  show ?case by simp
next
  case (Cons d divs)
  note ih1 = Cons.IH [of _ out]
  have ih2: "extract_divs divs soup progress t (out @ [ev]) =
      (case extract_divs divs soup progress t [] of (s, t', l) \<Rightarrow> (s, t', out @ ev # l))"
    for t ev
    using Cons.IH [of t "out @ [ev]"] by (simp split: prod.splits)
  have ih3: "extract_divs divs soup progress t [ev] =
      (case extract_divs divs soup progress t [] of (s, t', l) \<Rightarrow> (s, t', ev # l))"
    for t ev
    using Cons.IH [of t "[ev]"] by (simp split: prod.splits)
  show ?case
  proof (cases "scan_rows d None None")
    case (Inl e)
    then show ?thesis by simp
  next
    case (Inr pc)
    obtain part_number chroma where pc: "pc = (part_number, chroma)" by (cases pc)
    show ?thesis
    proof (cases "camera_family_of (pathways soup)")
      case (Inl e)
      with Inr pc show ?thesis by simp
    next
      case fam: (Inr camera_family)
      from Inr pc fam show ?thesis
        by (simp add: ih1 ih2 ih3 split: prod.splits option.splits)
    qed
  qed
qed

lemma extract_from_state:
  "extract_part_numbers_and_chroma divs soup st progress =
     (case extract_divs divs soup progress [] [] of
        (Some e, t, l) \<Rightarrow> (Some e, st\<lparr>console := console st @ l\<rparr>)
      | (None, t, l) \<Rightarrow>
          (None, \<lparr>part_numbers_data = dict_update (part_numbers_data st) t,
                  console = console st @ l\<rparr>))"
  unfolding extract_part_numbers_and_chroma_def
  by (subst extract_divs_console) (simp split: prod.splits option.splits)

lemma keys_dict_update:
  "fst ` set (dict_update d e) = fst ` set d \<union> fst ` set e"
  unfolding dict_update_def
proof (induction e arbitrary: d)
  case Nil
  show ?case by simp
next
  case (Cons x e)
  obtain k v where x: "x = (k, v)" by (cases x)
  from Cons.IH [of "dict_set k v d"] show ?case by (simp add: x keys_dict_set)
qed

lemma extract_status:
  "fst (extract_part_numbers_and_chroma divs soup st progress)
     = fst (extract_part_numbers_and_chroma divs soup st' progress)"
  by (simp add: extract_from_state [of divs soup st] extract_from_state [of divs soup st']
      split: prod.splits option.splits)

lemma extract_failure_no_merge:
  "fst (extract_part_numbers_and_chroma divs soup st progress) = Some e
   \<Longrightarrow> part_numbers_data (snd (extract_part_numbers_and_chroma divs soup st progress))
       = part_numbers_data st"
  by (simp add: extract_from_state [of divs soup st] split: prod.splits option.splits)

lemma extract_success_keys:
  assumes "fst (extract_part_numbers_and_chroma divs soup st progress) = None"
  shows "fst ` set (part_numbers_data
           (snd (extract_part_numbers_and_chroma divs soup empty_state progress)))
       \<subseteq> fst ` set (part_numbers_data
           (snd (extract_part_numbers_and_chroma divs soup st progress)))"
proof -
  obtain s t l where r: "extract_divs divs soup progress [] [] = (s, t, l)"
    by (cases "extract_divs divs soup progress [] []")
  from assms r have s: "s = None"
    by (simp add: extract_from_state [of divs soup st] split: option.splits)
  have "part_numbers_data (snd (extract_part_numbers_and_chroma divs soup empty_state progress))
      = dict_update [] t"
    by (simp add: extract_from_state r s empty_state_def)
  moreover have "part_numbers_data (snd (extract_part_numbers_and_chroma divs soup st progress))
      = dict_update (part_numbers_data st) t"
    by (simp add: extract_from_state [of divs soup st] r s)
  ultimately show ?thesis by (simp add: keys_dict_update)
qed

lemma extract_console:
  "set (console st)
     \<subseteq> set (console (snd (extract_part_numbers_and_chroma divs soup st progress)))"
  by (simp add: extract_from_state [of divs soup st] split: prod.splits option.splits)

lemma scrape_status:
  "fst (scrape_linked_page env u b st progress)
     = fst (scrape_linked_page env u b st' progress)"
  using extract_status [of _ _ st progress st']
  by (simp add: scrape_linked_page_def split: sum.splits)

lemma scrape_failure_no_merge:
  "fst (scrape_linked_page env u b st progress) = Some e
   \<Longrightarrow> part_numbers_data (snd (scrape_linked_page env u b st progress))
       = part_numbers_data st"
  using extract_failure_no_merge [of _ _ st progress e]
  by (simp add: scrape_linked_page_def split: sum.splits)

lemma scrape_success_keys:
  assumes "fst (scrape_linked_page env u b st progress) = None"
  shows "fst ` set (part_numbers_data (snd (scrape_linked_page env u b empty_state progress)))
       \<subseteq> fst ` set (part_numbers_data (snd (scrape_linked_page env u b st progress)))"
proof (cases "urljoin env b u")
  case (Inl e)
  with assms show ?thesis by (simp add: scrape_linked_page_def)
next
  case url: (Inr url)
  show ?thesis
  proof (cases "http_get env url")
    case (Inl e)
    with url assms show ?thesis by (simp add: scrape_linked_page_def)
  next
    case (Inr soup)
    with url assms
    have "fst (extract_part_numbers_and_chroma (product_divs soup) soup st progress) = None"
      by (simp add: scrape_linked_page_def)
    from extract_success_keys [OF this] url Inr show ?thesis
      by (simp add: scrape_linked_page_def)
  qed
qed

lemma scrape_console:
  "set (console st) \<subseteq> set (console (snd (scrape_linked_page env u b st progress)))"
  using extract_console [of st _ _ progress]
  by (simp add: scrape_linked_page_def split: sum.splits)

lemma product_task_console:
  "set (console st) \<subseteq> set (console (product_task env b reported u st))"
proof -
  obtain s st' where r: "scrape_linked_page env u b st (progress_log env) = (s, st')"
    by (cases "scrape_linked_page env u b st (progress_log env)")
  from scrape_console [of st env u b "progress_log env"] r have "set (console st) \<subseteq> set (console st')"
    by simp
  with r show ?thesis by (cases s) (auto simp: product_task_def)
qed

lemma product_task_contributes:
  assumes "fst (scrape_linked_page env u b empty_state (progress_log env)) = None"
  shows "fst ` set (part_numbers_data (snd (scrape_linked_page env u b empty_state (progress_log env))))
       \<subseteq> fst ` set (part_numbers_data (product_task env b reported u st))"
proof -
  obtain s st' where r: "scrape_linked_page env u b st (progress_log env) = (s, st')"
    by (cases "scrape_linked_page env u b st (progress_log env)")
  from assms scrape_status [of env u b st "progress_log env" empty_state] r have s: "s = None" by simp
  from scrape_success_keys [of env u b st "progress_log env"] r s
  have "fst ` set (part_numbers_data (snd (scrape_linked_page env u b empty_state (progress_log env))))
      \<subseteq> fst ` set (part_numbers_data st')" by simp
  with r s show ?thesis by (simp add: product_task_def)
qed

lemma product_task_reports:
  assumes "fst (scrape_linked_page env u b empty_state (progress_log env)) = Some e"
  shows "ProductError e \<in> set (console (product_task env b True u st))"
proof -
  obtain s st' where r: "scrape_linked_page env u b st (progress_log env) = (s, st')"
    by (cases "scrape_linked_page env u b st (progress_log env)")
  from assms scrape_status [of env u b st "progress_log env" empty_state] r have s: "s = Some e" by simp
  with r show ?thesis by (simp add: product_task_def)
qed

lemma product_tasks_console:
  "set (console st) \<subseteq> set (console (fold (product_task env b reported) us st))"
proof (induction us arbitrary: st)
  case Nil
  show ?case by simp
next
  case (Cons u us)
  from product_task_console [of st env b reported u]
    Cons.IH [of "product_task env b reported u st"]
  show ?case by auto
qed

lemma keys_kept_by_dict_set:
  "K \<subseteq> fst ` set d \<Longrightarrow> K \<subseteq> fst ` set (dict_set k v d)"
  by (auto simp: keys_dict_set)

lemma product_tasks_contribute:
  assumes "u \<in> set us"
      and "fst (scrape_linked_page env u b empty_state (progress_log env)) = None"
  shows "fst ` set (part_numbers_data (snd (scrape_linked_page env u b empty_state (progress_log env))))
       \<subseteq> fst ` set (part_numbers_data (fold (product_task env b reported) us st))"
proof -
  let ?K = "fst ` set (part_numbers_data (snd (scrape_linked_page env u b empty_state (progress_log env))))"
  from assms(1) obtain ys zs where us: "us = ys @ u # zs" by (auto dest: split_list)
  let ?st = "product_task env b reported u (fold (product_task env b reported) ys st)"
  have "?K \<subseteq> fst ` set (part_numbers_data ?st)"
    using assms(2) by (rule product_task_contributes)
  then have "?K \<subseteq> fst ` set (part_numbers_data (fold (product_task env b reported) zs ?st))"
    by (rule product_tasks_preserve [of "\<lambda>d. ?K \<subseteq> fst ` set d", rotated])
      (rule keys_kept_by_dict_set)
  then show ?thesis by (simp add: us)
qed

lemma product_tasks_report:
  assumes "u \<in> set us"
      and "fst (scrape_linked_page env u b empty_state (progress_log env)) = Some e"
  shows "ProductError e \<in> set (console (fold (product_task env b True) us st))"
proof -
  from assms(1) obtain ys zs where us: "us = ys @ u # zs" by (auto dest: split_list)
  let ?st = "product_task env b True u (fold (product_task env b True) ys st)"
  have "ProductError e \<in> set (console ?st)"
    using assms(2) by (rule product_task_reports)
  with product_tasks_console [of ?st env b True zs]
  show ?thesis by (auto simp: us)
qed

lemma subcategory_branch_console:
  "set (console st) \<subseteq> set (console (subcategory_branch env b c st))"
proof (cases "fetch_subcategories env b c")
  case (Inl e)
  then show ?thesis by (auto simp: subcategory_branch_def)
next
  case (Inr links)
  obtain urls r where sub: "submit_products env b links = (urls, r)"
    by (cases "submit_products env b links")
  from product_tasks_console [of st env b _ "as_completed env urls"] Inr sub
  show ?thesis by (cases r) (auto simp: subcategory_branch_def Let_def)
qed

lemma subcategory_branches_console:
  "set (console st) \<subseteq> set (console (fold (subcategory_branch env b) cs st))"
proof (induction cs arbitrary: st)
  case Nil
  show ?case by simp
next
  case (Cons c cs)
  from subcategory_branch_console [of st env b c]
    Cons.IH [of "subcategory_branch env b c st"]
  show ?case by auto
qed

lemma subcategory_branch_reports_category:
  "fetch_subcategories env b c = Inl e
   \<Longrightarrow> SubcategoryError e \<in> set (console (subcategory_branch env b c st))"
  by (simp add: subcategory_branch_def)

lemma subcategory_branch_contributes:
  assumes "fetch_subcategories env b c = Inr links"
      and "u \<in> set (as_completed env (fst (submit_products env b links)))"
      and "fst (scrape_linked_page env u b empty_state (progress_log env)) = None"
  shows "fst ` set (part_numbers_data (snd (scrape_linked_page env u b empty_state (progress_log env))))
       \<subseteq> fst ` set (part_numbers_data (subcategory_branch env b c st))"
proof -
  obtain urls r where sub: "submit_products env b links = (urls, r)"
    by (cases "submit_products env b links")
  from assms(2) sub have u: "u \<in> set (as_completed env urls)" by simp
  from product_tasks_contribute [OF u assms(3), of _ st] assms(1) sub
  show ?thesis by (cases r) (simp_all add: subcategory_branch_def Let_def)
qed

lemma subcategory_branch_reports_product:
  assumes "fetch_subcategories env b c = Inr links"
      and "u \<in> set (as_completed env (fst (submit_products env b links)))"
      and "snd (submit_products env b links) = None"
      and "fst (scrape_linked_page env u b empty_state (progress_log env)) = Some e"
  shows "ProductError e \<in> set (console (subcategory_branch env b c st))"
proof -
  obtain urls where sub: "submit_products env b links = (urls, None)"
    using assms(3) by (cases "submit_products env b links") simp
  from assms(2) sub have u: "u \<in> set (as_completed env urls)" by simp
  from product_tasks_report [OF u assms(4), of st] assms(1) sub
  show ?thesis by (simp add: subcategory_branch_def)
qed

text \<open>What one branch has stored or logged is still there when the crawl returns.\<close>

lemma branch_keys_stay:
  assumes "c \<in> set cs"
      and "\<And>st. K \<subseteq> fst ` set (part_numbers_data (subcategory_branch env b c st))"
  shows "K \<subseteq> fst ` set (part_numbers_data (fold (subcategory_branch env b) cs st))"
proof -
  from assms(1) obtain ys zs where cs: "cs = ys @ c # zs" by (auto dest: split_list)
  let ?st = "subcategory_branch env b c (fold (subcategory_branch env b) ys st)"
  have "K \<subseteq> fst ` set (part_numbers_data ?st)" by (rule assms(2))
  then have "K \<subseteq> fst ` set (part_numbers_data (fold (subcategory_branch env b) zs ?st))"
    by (rule subcategory_branches_preserve [of "\<lambda>d. K \<subseteq> fst ` set d", rotated])
      (rule keys_kept_by_dict_set)
  then show ?thesis by (simp add: cs)
qed

lemma branch_events_stay:
  assumes "c \<in> set cs"
      and "\<And>st. ev \<in> set (console (subcategory_branch env b c st))"
  shows "ev \<in> set (console (fold (subcategory_branch env b) cs st))"
proof -
  from assms(1) obtain ys zs where cs: "cs = ys @ c # zs" by (auto dest: split_list)
  let ?st = "subcategory_branch env b c (fold (subcategory_branch env b) ys st)"
  have "ev \<in> set (console ?st)" by (rule assms(2))
  with subcategory_branches_console [of ?st env b zs]
  show ?thesis by (auto simp: cs)
qed

text \<open>
  What the two \<open>try\<close> blocks of \<open>fetch_part_numbers\<close> do achieve. When the root page is
  fetched, \<open>fetch_part_numbers\<close> returns a state, and a failing task changes nothing in
  the shared dictionary. If every submitted task completes exactly once, a category
  whose fetch fails leaves its error on the console; a submitted product page that
  can be scraped has every part number it yields among the keys of the final
  dictionary; and a submitted page that fails yields nothing and, when all links of its
  category were submitted, leaves its error on the console.
\<close>

lemma submitted_tasks_isolated:
  "(case http_get env link_url of
      Inl e \<Rightarrow> fetch_part_numbers env link_url = Inl e
    | Inr root \<Rightarrow>
        (\<exists>st. fetch_part_numbers env link_url = Inr st \<and>
           ((\<forall>ls. mset (as_completed env ls) = mset ls) \<longrightarrow>
            (\<forall>c\<in>set (main_categories root).
               case fetch_subcategories env link_url c of
                 Inl e \<Rightarrow> SubcategoryError e \<in> set (console st)
               | Inr links \<Rightarrow>
                   (\<forall>u\<in>set (fst (submit_products env link_url links)).
                      case scrape_linked_page env u link_url empty_state (progress_log env) of
                        (None, page) \<Rightarrow>
                          fst ` set (part_numbers_data page)
                            \<subseteq> fst ` set (part_numbers_data st)
                      | (Some e, page) \<Rightarrow>
                          part_numbers_data page = []
                          \<and> (snd (submit_products env link_url links) = None
                               \<longrightarrow> ProductError e \<in> set (console st)))))))
   \<and> (\<forall>u st0 e. fst (scrape_linked_page env u link_url st0 (progress_log env)) = Some e \<longrightarrow>
         part_numbers_data (snd (scrape_linked_page env u link_url st0 (progress_log env)))
           = part_numbers_data st0)"
proof -
  have noop: "part_numbers_data (snd (scrape_linked_page env u link_url st0 (progress_log env)))
           = part_numbers_data st0"
    if "fst (scrape_linked_page env u link_url st0 (progress_log env)) = Some e" for u st0 e
    using that by (rule scrape_failure_no_merge)
  have main: "case http_get env link_url of
      Inl e \<Rightarrow> fetch_part_numbers env link_url = Inl e
    | Inr root \<Rightarrow>
        (\<exists>st. fetch_part_numbers env link_url = Inr st \<and>
           ((\<forall>ls. mset (as_completed env ls) = mset ls) \<longrightarrow>
            (\<forall>c\<in>set (main_categories root).
               case fetch_subcategories env link_url c of
                 Inl e \<Rightarrow> SubcategoryError e \<in> set (console st)
               | Inr links \<Rightarrow>
                   (\<forall>u\<in>set (fst (submit_products env link_url links)).
                      case scrape_linked_page env u link_url empty_state (progress_log env) of
                        (None, page) \<Rightarrow>
                          fst ` set (part_numbers_data page)
                            \<subseteq> fst ` set (part_numbers_data st)
                      | (Some e, page) \<Rightarrow>
                          part_numbers_data page = []
                          \<and> (snd (submit_products env link_url links) = None
                               \<longrightarrow> ProductError e \<in> set (console st))))))"
  proof (cases "http_get env link_url")
    case (Inl e)
    then show ?thesis by (simp add: fetch_part_numbers_fails_iff)
  next
    case (Inr root)
    let ?cs = "as_completed env (main_categories root)"
    let ?st = "fold (subcategory_branch env link_url) ?cs
                 \<lparr>part_numbers_data = [], console = []\<rparr>"
    have ret: "fetch_part_numbers env link_url = Inr ?st"
      using Inr by (simp add: fetch_part_numbers_def fetch_main_categories_def)
    have branches: "case fetch_subcategories env link_url c of
                 Inl e \<Rightarrow> SubcategoryError e \<in> set (console ?st)
               | Inr links \<Rightarrow>
                   (\<forall>u\<in>set (fst (submit_products env link_url links)).
                      case scrape_linked_page env u link_url empty_state (progress_log env) of
                        (None, page) \<Rightarrow>
                          fst ` set (part_numbers_data page)
                            \<subseteq> fst ` set (part_numbers_data ?st)
                      | (Some e, page) \<Rightarrow>
                          part_numbers_data page = []
                          \<and> (snd (submit_products env link_url links) = None
                               \<longrightarrow> ProductError e \<in> set (console ?st)))"
      if sched: "\<forall>ls. mset (as_completed env ls) = mset ls"
        and c: "c \<in> set (main_categories root)" for c
    proof -
      have same: "set (as_completed env ls) = set ls" for ls
        using sched by (auto dest: mset_eq_setD)
      from c same have c': "c \<in> set ?cs" by simp
      show ?thesis
      proof (cases "fetch_subcategories env link_url c")
        case (Inl e)
        have "SubcategoryError e \<in> set (console ?st)"
          using c' by (rule branch_events_stay)
            (rule subcategory_branch_reports_category [OF Inl])
        with Inl show ?thesis by simp
      next
        case links: (Inr links)
        have page: "case scrape_linked_page env u link_url empty_state (progress_log env) of
                        (None, page) \<Rightarrow>
                          fst ` set (part_numbers_data page)
                            \<subseteq> fst ` set (part_numbers_data ?st)
                      | (Some e, page) \<Rightarrow>
                          part_numbers_data page = []
                          \<and> (snd (submit_products env link_url links) = None
                               \<longrightarrow> ProductError e \<in> set (console ?st))"
          if u: "u \<in> set (fst (submit_products env link_url links))" for u
        proof -
          from u same
          have u': "u \<in> set (as_completed env (fst (submit_products env link_url links)))"
            by simp
          obtain s page where r: "scrape_linked_page env u link_url empty_state (progress_log env) = (s, page)"
            by (cases "scrape_linked_page env u link_url empty_state (progress_log env)")
          show ?thesis
          proof (cases s)
            case None
            with r have ok: "fst (scrape_linked_page env u link_url empty_state (progress_log env)) = None"
              by simp
            have "fst ` set (part_numbers_data (snd (scrape_linked_page env u link_url empty_state (progress_log env))))
                \<subseteq> fst ` set (part_numbers_data ?st)"
              using c' by (rule branch_keys_stay)
                (rule subcategory_branch_contributes [OF links u' ok])
            with r None show ?thesis by simp
          next
            case (Some e)
            with r have bad: "fst (scrape_linked_page env u link_url empty_state (progress_log env)) = Some e"
              by simp
            from scrape_failure_no_merge [OF bad] r
            have stored: "part_numbers_data page = []" by (simp add: empty_state_def)
            have "ProductError e \<in> set (console ?st)"
              if none: "snd (submit_products env link_url links) = None"
              using c' by (rule branch_events_stay)
                (rule subcategory_branch_reports_product [OF links u' none bad])
            with r Some stored show ?thesis by simp
          qed
        qed
        with links show ?thesis by simp
      qed
    qed
    from ret branches Inr show ?thesis by auto
  qed
  from main noop show ?thesis by blast
qed

lemma submitted_tasks_isolated_demo:
  "http_get demo_env demo_root = Inr (index_page [''/usb3'', ''/pcie'', ''/gone''] [])
   \<and> (\<forall>ls. mset (as_completed demo_env ls) = mset ls)
   \<and> fetch_subcategories demo_env demo_root ''/gone'' = Inl (HTTPError 404)
   \<and> scrape_linked_page demo_env ''http://x/offline'' demo_root empty_state (progress_log demo_env)
       = (Some ConnectionError, empty_state)
   \<and> (\<exists>st. fetch_part_numbers demo_env demo_root = Inr st
         \<and> SubcategoryError (HTTPError 404) \<in> set (console st)
         \<and> ProductError ConnectionError \<in> set (console st)
         \<and> ''MQ013CG-E2'' \<in> fst ` set (part_numbers_data st))"
proof -
  have root: "http_get demo_env demo_root = Inr (index_page [''/usb3'', ''/pcie'', ''/gone''] [])"
    by code_simp
  have sched: "\<forall>ls. mset (as_completed demo_env ls) = mset ls"
    by (simp add: demo_env_def)
  have gone: "fetch_subcategories demo_env demo_root ''/gone'' = Inl (HTTPError 404)"
    by code_simp
  have usb3: "fetch_subcategories demo_env demo_root ''/usb3''
      = Inr [''/mq013cg'', ''/mq013mg'', ''/offline'', ''/mq013rg'', ''/polar'']"
    by code_simp
  have sub: "submit_products demo_env demo_root
        [''/mq013cg'', ''/mq013mg'', ''/offline'', ''/mq013rg'', ''/polar'']
      = ([''http://x/mq013cg'', ''http://x/mq013mg'', ''http://x/offline'',
          ''http://x/mq013rg'', ''http://x/polar''], None)"
    by code_simp
  have offline: "scrape_linked_page demo_env ''http://x/offline'' demo_root empty_state (progress_log demo_env)
       = (Some ConnectionError, empty_state)"
    by code_simp
  have camera: "scrape_linked_page demo_env ''http://x/mq013cg'' demo_root empty_state (progress_log demo_env)
       = (None, \<lparr>part_numbers_data = [(''MQ013CG-E2'', new_record ''rgb'' ''xiQ'')],
               console = []\<rparr>)"
    by code_simp
  from submitted_tasks_isolated [of demo_env demo_root] sched
  obtain st where st: "fetch_part_numbers demo_env demo_root = Inr st"
    and branches: "\<forall>c\<in>set (main_categories (index_page [''/usb3'', ''/pcie'', ''/gone''] [])).
               case fetch_subcategories demo_env demo_root c of
                 Inl e \<Rightarrow> SubcategoryError e \<in> set (console st)
               | Inr links \<Rightarrow>
                   (\<forall>u\<in>set (fst (submit_products demo_env demo_root links)).
                      case scrape_linked_page demo_env u demo_root empty_state (progress_log demo_env) of
                        (None, page) \<Rightarrow>
                          fst ` set (part_numbers_data page)
                            \<subseteq> fst ` set (part_numbers_data st)
                      | (Some e, page) \<Rightarrow>
                          part_numbers_data page = []
                          \<and> (snd (submit_products demo_env demo_root links) = None
                               \<longrightarrow> ProductError e \<in> set (console st)))"
    unfolding root sum.case by blast
  have cats: "''/gone'' \<in> set (main_categories (index_page [''/usb3'', ''/pcie'', ''/gone''] []))"
    "''/usb3'' \<in> set (main_categories (index_page [''/usb3'', ''/pcie'', ''/gone''] []))"
    by (simp_all add: index_page_def)
  from branches cats(1)
  have "case fetch_subcategories demo_env demo_root ''/gone'' of
                 Inl e \<Rightarrow> SubcategoryError e \<in> set (console st)
               | Inr links \<Rightarrow>
                   (\<forall>u\<in>set (fst (submit_products demo_env demo_root links)).
                      case scrape_linked_page demo_env u demo_root empty_state (progress_log demo_env) of
                        (None, page) \<Rightarrow>
                          fst ` set (part_numbers_data page)
                            \<subseteq> fst ` set (part_numbers_data st)
                      | (Some e, page) \<Rightarrow>
                          part_numbers_data page = []
                          \<and> (snd (submit_products demo_env demo_root links) = None
                               \<longrightarrow> ProductError e \<in> set (console st)))"
    by (rule bspec)
  then have category_logged: "SubcategoryError (HTTPError 404) \<in> set (console st)"
    unfolding gone sum.case .
  from branches cats(2)
  have "case fetch_subcategories demo_env demo_root ''/usb3'' of
                 Inl e \<Rightarrow> SubcategoryError e \<in> set (console st)
               | Inr links \<Rightarrow>
                   (\<forall>u\<in>set (fst (submit_products demo_env demo_root links)).
                      case scrape_linked_page demo_env u demo_root empty_state (progress_log demo_env) of
                        (None, page) \<Rightarrow>
                          fst ` set (part_numbers_data page)
                            \<subseteq> fst ` set (part_numbers_data st)
                      | (Some e, page) \<Rightarrow>
                          part_numbers_data page = []
                          \<and> (snd (submit_products demo_env demo_root links) = None
                               \<longrightarrow> ProductError e \<in> set (console st)))"
    by (rule bspec)
  then have pages: "\<forall>u\<in>set [''http://x/mq013cg'', ''http://x/mq013mg'', ''http://x/offline'',
          ''http://x/mq013rg'', ''http://x/polar''].
                      case scrape_linked_page demo_env u demo_root empty_state (progress_log demo_env) of
                        (None, page) \<Rightarrow>
                          fst ` set (part_numbers_data page)
                            \<subseteq> fst ` set (part_numbers_data st)
                      | (Some e, page) \<Rightarrow>
                          part_numbers_data page = []
                          \<and> (None = (None :: error option)
                               \<longrightarrow> ProductError e \<in> set (console st))"
    unfolding usb3 sum.case sub fst_conv snd_conv .
  have "''http://x/offline'' \<in> set [''http://x/mq013cg'', ''http://x/mq013mg'',
          ''http://x/offline'', ''http://x/mq013rg'', ''http://x/polar'']" by simp
  with pages have "case scrape_linked_page demo_env ''http://x/offline'' demo_root empty_state (progress_log demo_env) of
                        (None, page) \<Rightarrow>
                          fst ` set (part_numbers_data page)
                            \<subseteq> fst ` set (part_numbers_data st)
                      | (Some e, page) \<Rightarrow>
                          part_numbers_data page = []
                          \<and> (None = (None :: error option)
                               \<longrightarrow> ProductError e \<in> set (console st))"
    by (rule bspec)
  then have product_logged: "ProductError ConnectionError \<in> set (console st)"
    unfolding offline by simp
  have "''http://x/mq013cg'' \<in> set [''http://x/mq013cg'', ''http://x/mq013mg'',
          ''http://x/offline'', ''http://x/mq013rg'', ''http://x/polar'']" by simp
  with pages have "case scrape_linked_page demo_env ''http://x/mq013cg'' demo_root empty_state (progress_log demo_env) of
                        (None, page) \<Rightarrow>
                          fst ` set (part_numbers_data page)
                            \<subseteq> fst ` set (part_numbers_data st)
                      | (Some e, page) \<Rightarrow>
                          part_numbers_data page = []
                          \<and> (None = (None :: error option)
                               \<longrightarrow> ProductError e \<in> set (console st))"
    by (rule bspec)
  then have sibling_stored: "''MQ013CG-E2'' \<in> fst ` set (part_numbers_data st)"
    unfolding camera by simp
  from st category_logged product_logged sibling_stored
  have "\<exists>st. fetch_part_numbers demo_env demo_root = Inr st
         \<and> SubcategoryError (HTTPError 404) \<in> set (console st)
         \<and> ProductError ConnectionError \<in> set (console st)
         \<and> ''MQ013CG-E2'' \<in> fst ` set (part_numbers_data st)"
    by blast
  with root sched gone offline show ?thesis by (simp only: simp_thms)
qed

text \<open>
  Claim C5, as the code has it. The joined URL of a product link is computed while the
  tasks are being submitted (line 105), outside the \<open>try\<close> of the single page. On a
  category page that lists \<open>/offline\<close> (whose fetch fails), then a link that \<open>urljoin\<close>
  rejects, then \<open>/mq013cg\<close> (a camera page that scrapes to one record), the crawl returns
  an empty dictionary and a console with the \<open>ValueError\<close> alone: the failure of
  \<open>/offline\<close> leaves no line, and the sibling \<open>/mq013cg\<close> stores nothing.
\<close>

theorem rejected_link_breaks_isolation:
  "http_get demo_env ''http://x/other-products'' = Inr (index_page [''/mixed''] [])
   \<and> fetch_subcategories demo_env ''http://x/other-products'' ''/mixed''
       = Inr [''/offline'', ''http://[bad'', ''/mq013cg'']
   \<and> urljoin demo_env ''http://x/other-products'' ''http://[bad'' = Inl ValueError
   \<and> scrape_linked_page demo_env ''http://x/offline'' ''http://x/other-products''
         empty_state (progress_log demo_env)
       = (Some ConnectionError, empty_state)
   \<and> scrape_linked_page demo_env ''http://x/mq013cg'' ''http://x/other-products''
         empty_state (progress_log demo_env)
       = (None, \<lparr>part_numbers_data =
                   [(''MQ013CG-E2'', \<lparr>cameraType = ''rgb'', cameraFamily = ''xiQ'',
                                       mosaicWidth = 0, mosaicHeight = 0\<rparr>)],
                 console = []\<rparr>)
   \<and> fetch_part_numbers demo_env ''http://x/other-products''
       = Inr \<lparr>part_numbers_data = [], console = [SubcategoryError ValueError]\<rparr>"
  by code_simp

end
